theory Spec2Isabelle
  imports Complex_Main
begin

section \<open>Data model\<close>

text \<open>
  Timestamps and durations are integers counting nanoseconds, the unit of Go's
  \<^verbatim>\<open>time.Duration\<close>. The SQL \<^verbatim>\<open>float\<close> columns and Go's \<^verbatim>\<open>float64\<close> are
  modelled by \<^typ>\<open>real\<close>: no property below depends on rounding.
\<close>

type_synonym timestamp = int
type_synonym duration = int

definition Second :: duration where
  "Second = 1000000000"

definition Minute :: duration where
  "Minute = 60 * Second"

text \<open>
  The tables created by \<^verbatim>\<open>InitDB\<close>. A table is the list of its rows. The only
  \<^verbatim>\<open>INSERT\<close> statements of the repository (\<^verbatim>\<open>Register\<close>, \<^verbatim>\<open>UploadOrder\<close>) fill every
  column, so columns hold values, never \<^verbatim>\<open>NULL\<close>.
\<close>

record user_row =
  login :: string
  password :: string
  current_balance :: real
  withdrawn :: real

record order_row =
  order_number :: string
  status :: string
  accrual :: real
  uploaded_at :: timestamp
  last_changed_at :: timestamp
  login_users :: string

record store =
  users :: "user_row list"
  orders :: "order_row list"

text \<open>
  Modelled from the spec: the package \<^verbatim>\<open>models\<close> is not among the sources. The
  fields of \<^verbatim>\<open>models.Order\<close>, \<^verbatim>\<open>models.AccountBalance\<close> and
  \<^verbatim>\<open>models.AccrualResponse\<close> are the ones the repository and the processor read and
  write. A time field that no \<^verbatim>\<open>Scan\<close> fills keeps Go's zero value, written
  \<^term>\<open>None\<close>.
\<close>

record Order =
  Number :: string
  Order_Status :: string
  Order_Accrual :: real
  UploadedAt :: "timestamp option"
  LastChangedAt :: "timestamp option"

record AccountBalance =
  CurrentBalance :: real
  Withdrawn :: real

record AccrualResponse =
  OrderNumber :: string
  Status :: string
  Accrual :: real

datatype decode_error = SyntaxError | UnmarshalTypeError

datatype error =
    BeginFailed
  | ExecFailed
  | CommitFailed
  | QueryFailed
  | RowsFailed
  | ErrNoRows
  | TransportError
  | Non200 int
  | DecodeFailed decode_error

section \<open>The repository (\<^verbatim>\<open>dbStorage\<close>)\<close>

text \<open>
  What the database does to a call is an input of the model. A query either
  succeeds, fails before the statement runs (\<^verbatim>\<open>QueryContext\<close> returns an error), or
  fails while the rows are read (\<^verbatim>\<open>rows.Scan\<close>, \<^verbatim>\<open>rows.Err\<close>), when the server has
  already executed the statement.
\<close>

datatype query_outcome = QueryOk | QueryErr | RowsErr

subsection \<open>\<^verbatim>\<open>GetNewOrders\<close>\<close>

text \<open>
  \<^verbatim>\<open>UPDATE orders SET status = 'PROCESSING' WHERE status = 'NEW'
  RETURNING order_number, status, accrual, uploaded_at\<close>:
  the table after the statement, and the rows it returns.
\<close>

definition claim_row :: "order_row \<Rightarrow> order_row" where
  "claim_row r = r\<lparr>status := ''PROCESSING''\<rparr>"

definition claim_update :: "order_row list \<Rightarrow> order_row list" where
  "claim_update rows = map (\<lambda>r. if status r = ''NEW'' then claim_row r else r) rows"

definition claim_returning :: "order_row list \<Rightarrow> order_row list" where
  "claim_returning rows = map claim_row (filter (\<lambda>r. status r = ''NEW'') rows)"

definition scan_new_order :: "order_row \<Rightarrow> Order" where
  "scan_new_order r =
     \<lparr>Number = order_number r, Order_Status = status r, Order_Accrual = accrual r,
      UploadedAt = Some (uploaded_at r), LastChangedAt = None\<rparr>"

definition GetNewOrders :: "query_outcome \<Rightarrow> store \<Rightarrow> (error + Order list) \<times> store" where
  "GetNewOrders q s =
     (case q of
        QueryErr \<Rightarrow> (Inl QueryFailed, s)
      | RowsErr \<Rightarrow> (Inl RowsFailed, s\<lparr>orders := claim_update (orders s)\<rparr>)
      | QueryOk \<Rightarrow>
          (Inr (map scan_new_order (claim_returning (orders s))),
           s\<lparr>orders := claim_update (orders s)\<rparr>))"

subsection \<open>\<^verbatim>\<open>UpdateOrderStatus\<close>\<close>

text \<open>
  The function opens a transaction with \<^verbatim>\<open>s.db.Begin()\<close> but sends both statements
  through \<^verbatim>\<open>s.db.ExecContext\<close>, not through the transaction: each statement runs on
  its own and is durable as soon as it returns. The transaction stays empty, so its
  \<^verbatim>\<open>Commit\<close> and the deferred \<^verbatim>\<open>Rollback\<close> change nothing in the tables; they can only
  fail. Which of the four calls fails is an input.
\<close>

record tx_faults =
  begin_fails :: bool
  exec_orders_fails :: bool
  exec_users_fails :: bool
  commit_fails :: bool

definition no_faults :: tx_faults where
  "no_faults = \<lparr>begin_fails = False, exec_orders_fails = False,
                 exec_users_fails = False, commit_fails = False\<rparr>"

text \<open>\<^verbatim>\<open>UPDATE orders SET status = $1, accrual = $2 WHERE order_number = $3\<close>\<close>

definition set_status_accrual :: "string \<Rightarrow> real \<Rightarrow> string \<Rightarrow> order_row list \<Rightarrow> order_row list" where
  "set_status_accrual st acc num rows =
     map (\<lambda>r. if order_number r = num then r\<lparr>status := st, accrual := acc\<rparr> else r) rows"

text \<open>
  \<^verbatim>\<open>UPDATE users SET current_balance = current_balance + $1
  WHERE login = (SELECT login_users FROM orders WHERE order_number = $2)\<close>.
  The scalar subquery yields no value when no row matches (then no user is
  updated), one value when one row matches, and makes the statement fail when
  several rows match.
\<close>

definition owner_subquery :: "string \<Rightarrow> order_row list \<Rightarrow> error + string option" where
  "owner_subquery num rows =
     (case map login_users (filter (\<lambda>r. order_number r = num) rows) of
        [] \<Rightarrow> Inr None
      | [l] \<Rightarrow> Inr (Some l)
      | _ \<Rightarrow> Inl ExecFailed)"

definition add_balance :: "real \<Rightarrow> string \<Rightarrow> user_row list \<Rightarrow> user_row list" where
  "add_balance acc l rows =
     map (\<lambda>u. if login u = l then u\<lparr>current_balance := current_balance u + acc\<rparr> else u) rows"

definition credit_owner :: "real \<Rightarrow> string \<Rightarrow> store \<Rightarrow> error + store" where
  "credit_owner acc num s =
     (case owner_subquery num (orders s) of
        Inl e \<Rightarrow> Inl e
      | Inr None \<Rightarrow> Inr s
      | Inr (Some l) \<Rightarrow> Inr (s\<lparr>users := add_balance acc l (users s)\<rparr>))"

definition UpdateOrderStatus ::
  "tx_faults \<Rightarrow> store \<Rightarrow> string \<Rightarrow> string \<Rightarrow> real \<Rightarrow> error option \<times> store" where
  "UpdateOrderStatus f s orderNumber st acc =
     (if begin_fails f then (Some BeginFailed, s)
      else if exec_orders_fails f then (Some ExecFailed, s)
      else
        let s1 = s\<lparr>orders := set_status_accrual st acc orderNumber (orders s)\<rparr> in
        if exec_users_fails f then (Some ExecFailed, s1)
        else
          (case credit_owner acc orderNumber s1 of
             Inl e \<Rightarrow> (Some e, s1)
           | Inr s2 \<Rightarrow> if commit_fails f then (Some CommitFailed, s2) else (None, s2)))"

subsection \<open>\<^verbatim>\<open>SetOrderStatusInvalid\<close>\<close>

text \<open>\<^verbatim>\<open>UPDATE orders SET status = 'INVALID' WHERE order_number = $1\<close>\<close>

definition set_invalid :: "string \<Rightarrow> order_row list \<Rightarrow> order_row list" where
  "set_invalid num rows =
     map (\<lambda>r. if order_number r = num then r\<lparr>status := ''INVALID''\<rparr> else r) rows"

definition SetOrderStatusInvalid :: "bool \<Rightarrow> store \<Rightarrow> string \<Rightarrow> error option \<times> store" where
  "SetOrderStatusInvalid exec_fails s orderNumber =
     (if exec_fails then (Some ExecFailed, s)
      else (None, s\<lparr>orders := set_invalid orderNumber (orders s)\<rparr>))"

subsection \<open>\<^verbatim>\<open>GetStaleProcessingOrders\<close>\<close>

text \<open>
  \<^verbatim>\<open>SELECT order_number, status, accrual, uploaded_at, last_changed_at FROM orders
  WHERE status = 'PROCESSING' AND last_changed_at < NOW() - $1\<close>.
  The database clock \<^verbatim>\<open>NOW()\<close> is the input \<open>now\<close>; the subtraction is read as
  arithmetic on timestamps.
\<close>

definition is_stale :: "timestamp \<Rightarrow> duration \<Rightarrow> order_row \<Rightarrow> bool" where
  "is_stale now staleThreshold r \<longleftrightarrow>
     status r = ''PROCESSING'' \<and> last_changed_at r < now - staleThreshold"

definition scan_order :: "order_row \<Rightarrow> Order" where
  "scan_order r =
     \<lparr>Number = order_number r, Order_Status = status r, Order_Accrual = accrual r,
      UploadedAt = Some (uploaded_at r), LastChangedAt = Some (last_changed_at r)\<rparr>"

definition GetStaleProcessingOrders ::
  "query_outcome \<Rightarrow> timestamp \<Rightarrow> store \<Rightarrow> duration \<Rightarrow> error + Order list" where
  "GetStaleProcessingOrders q now s staleThreshold =
     (case q of
        QueryErr \<Rightarrow> Inl QueryFailed
      | RowsErr \<Rightarrow> Inl RowsFailed
      | QueryOk \<Rightarrow> Inr (map scan_order (filter (is_stale now staleThreshold) (orders s))))"

subsection \<open>\<^verbatim>\<open>GetBalance\<close>\<close>

text \<open>
  \<^verbatim>\<open>SELECT current_balance, withdrawn FROM users WHERE login = $1\<close> read with
  \<^verbatim>\<open>QueryRowContext(...).Scan\<close>: the first matching row, or \<^verbatim>\<open>sql.ErrNoRows\<close>.
\<close>

definition GetBalance :: "bool \<Rightarrow> store \<Rightarrow> string \<Rightarrow> error + AccountBalance" where
  "GetBalance query_fails s userLogin =
     (if query_fails then Inl QueryFailed
      else case filter (\<lambda>u. login u = userLogin) (users s) of
             [] \<Rightarrow> Inl ErrNoRows
           | u # _ \<Rightarrow> Inr \<lparr>CurrentBalance = current_balance u, Withdrawn = withdrawn u\<rparr>)"

section \<open>The order processor\<close>

subsection \<open>Dispatch: \<^verbatim>\<open>fetchAndQueueOrders\<close>, \<^verbatim>\<open>fetchAndQueueStaleOrders\<close> and one tick\<close>

text \<open>
  The channel \<^verbatim>\<open>orderChan\<close> is the list of identifiers sent and not yet received,
  oldest first. The loop \<^verbatim>\<open>for _, order := range orders { orderChan <- order.Number }\<close>
  sends one identifier per returned row. The capacity of the channel (100) only delays
  a send; it drops nothing, and is not part of the sequential model.
\<close>

fun send_all :: "string list \<Rightarrow> Order list \<Rightarrow> string list" where
  "send_all chan [] = chan"
| "send_all chan (order # rest) = send_all (chan @ [Number order]) rest"

definition fetchAndQueueOrders ::
  "query_outcome \<Rightarrow> store \<times> string list \<Rightarrow> error option \<times> (store \<times> string list)" where
  "fetchAndQueueOrders q st =
     (case st of (s, chan) \<Rightarrow>
        (case GetNewOrders q s of
           (Inl err, s') \<Rightarrow> (Some err, (s', chan))
         | (Inr os, s') \<Rightarrow> (None, (s', send_all chan os))))"

definition staleThreshold :: duration where
  "staleThreshold = Minute * 2"

definition fetchAndQueueStaleOrders ::
  "query_outcome \<Rightarrow> timestamp \<Rightarrow> store \<times> string list \<Rightarrow> error option \<times> (store \<times> string list)" where
  "fetchAndQueueStaleOrders q now st =
     (case st of (s, chan) \<Rightarrow>
        (case GetStaleProcessingOrders q now s staleThreshold of
           Inl err \<Rightarrow> (Some err, (s, chan))
         | Inr os \<Rightarrow> (None, (s, send_all chan os))))"

text \<open>
  The branch \<^verbatim>\<open>case <-ticker.C\<close> of \<^verbatim>\<open>ProcessOrders\<close>: both fetches run, in this
  order; an error of either is logged and nothing else.
\<close>

definition log_if :: "string \<Rightarrow> error option \<Rightarrow> (string \<times> error) list" where
  "log_if msg e = (case e of None \<Rightarrow> [] | Some err \<Rightarrow> [(msg, err)])"

definition tick ::
  "query_outcome \<Rightarrow> query_outcome \<Rightarrow> timestamp \<Rightarrow> store \<times> string list \<Rightarrow>
   (string \<times> error) list \<times> (store \<times> string list)" where
  "tick q_new q_stale now st =
     (case fetchAndQueueOrders q_new st of (e1, st1) \<Rightarrow>
        (case fetchAndQueueStaleOrders q_stale now st1 of (e2, st2) \<Rightarrow>
           (log_if ''Error processing new orders'' e1 @
            log_if ''Error processing stale orders'' e2, st2)))"

subsection \<open>The accrual client: \<^verbatim>\<open>fetchAccrualForOrder\<close>\<close>

text \<open>
  What \<^verbatim>\<open>http.Get\<close> returns is an input: either an error, or a response with a
  status code and a body. The decoder of the body is a parameter. When decoding fails
  the Go function returns the error together with a pointer, which its only caller
  never reads; the model returns the error.
\<close>

datatype 'b http_result = GetFailed | Response int 'b

definition fetchAccrualForOrder ::
  "('b \<Rightarrow> decode_error + AccrualResponse) \<Rightarrow> 'b http_result \<Rightarrow> error + AccrualResponse" where
  "fetchAccrualForOrder dec r =
     (case r of
        GetFailed \<Rightarrow> Inl TransportError
      | Response code body \<Rightarrow>
          if code \<noteq> 200 then Inl (Non200 code)
          else (case dec body of
                  Inl e \<Rightarrow> Inl (DecodeFailed e)
                | Inr accrualResp \<Rightarrow> Inr accrualResp))"

text \<open>
  Modelled from the spec: the JSON names of the fields of \<^verbatim>\<open>models.AccrualResponse\<close>
  (\<^verbatim>\<open>order\<close>, \<^verbatim>\<open>status\<close>, \<^verbatim>\<open>accrual\<close>) are those of the accrual service's interface.
  A body is \<^term>\<open>None\<close> when it does not start with a JSON value, and the value
  otherwise. Decoding into the struct follows \<^verbatim>\<open>encoding/json\<close>: \<^verbatim>\<open>null\<close> leaves the
  struct as it is, an object sets the fields its members name (how a member's key is
  matched against a field name is the parameter \<open>same\<close>), a member of the wrong type
  is skipped and reported once the object is read, and any other value is a type
  error. Fields that no member sets keep their zero value.
\<close>

datatype json =
    JNull
  | JBool bool
  | JNumber real
  | JString string
  | JArray "json list"
  | JObject "(string \<times> json) list"

definition zero_response :: AccrualResponse where
  "zero_response = \<lparr>OrderNumber = [], Status = [], Accrual = 0\<rparr>"

definition first_error :: "decode_error option \<Rightarrow> decode_error option" where
  "first_error e = (case e of None \<Rightarrow> Some UnmarshalTypeError | Some x \<Rightarrow> Some x)"

fun decode_member ::
  "(string \<Rightarrow> string \<Rightarrow> bool) \<Rightarrow> AccrualResponse \<times> decode_error option \<Rightarrow> string \<times> json \<Rightarrow>
   AccrualResponse \<times> decode_error option" where
  "decode_member same (resp, e) (k, v) =
     (if same k ''order'' then
        (case v of JString x \<Rightarrow> (resp\<lparr>OrderNumber := x\<rparr>, e)
                 | JNull \<Rightarrow> (resp, e)
                 | _ \<Rightarrow> (resp, first_error e))
      else if same k ''status'' then
        (case v of JString x \<Rightarrow> (resp\<lparr>Status := x\<rparr>, e)
                 | JNull \<Rightarrow> (resp, e)
                 | _ \<Rightarrow> (resp, first_error e))
      else if same k ''accrual'' then
        (case v of JNumber x \<Rightarrow> (resp\<lparr>Accrual := x\<rparr>, e)
                 | JNull \<Rightarrow> (resp, e)
                 | _ \<Rightarrow> (resp, first_error e))
      else (resp, e))"

definition decodeAccrualResponse ::
  "(string \<Rightarrow> string \<Rightarrow> bool) \<Rightarrow> json option \<Rightarrow> decode_error + AccrualResponse" where
  "decodeAccrualResponse same body =
     (case body of
        None \<Rightarrow> Inl SyntaxError
      | Some JNull \<Rightarrow> Inr zero_response
      | Some (JObject members) \<Rightarrow>
          (case foldl (decode_member same) (zero_response, None) members of
             (resp, None) \<Rightarrow> Inr resp
           | (resp, Some e) \<Rightarrow> Inl e)
      | Some _ \<Rightarrow> Inl UnmarshalTypeError)"

subsection \<open>The worker\<close>

text \<open>
  What a worker does is recorded as a trace: the queries to the accrual service, the
  sleeps, the calls to the repository and the errors logged.
\<close>

datatype event =
    EvGet string
  | EvSleep duration
  | EvSetOrderStatusInvalid string
  | EvUpdateOrderStatus string string real
  | EvLog string string error

text \<open>
  The environment of one item: the result of the \<open>k\<close>-th query made for it (counted
  from 0), and what the database does to the write that ends it.
\<close>

record 'b item_env =
  http :: "nat \<Rightarrow> 'b http_result"
  invalid_fails :: bool
  update_faults :: tx_faults

text \<open>
  The inner loop \<^verbatim>\<open>for { ... }\<close> of \<^verbatim>\<open>worker\<close>, for one identifier taken from the
  channel. The argument \<open>responses\<close> holds the results of the queries still to come,
  so \<open>responses 0\<close> is the result of the query this iteration makes.
\<close>

function retry_loop ::
  "('b \<Rightarrow> decode_error + AccrualResponse) \<Rightarrow> bool \<Rightarrow> tx_faults \<Rightarrow> string \<Rightarrow> nat \<Rightarrow>
   (nat \<Rightarrow> 'b http_result) \<Rightarrow> store \<times> event list \<Rightarrow> store \<times> event list" where
  "retry_loop dec inv_fails f orderID retryCount responses (s, tr) =
     (case fetchAccrualForOrder dec (responses 0) of
        Inl err \<Rightarrow>
          (s, tr @ [EvGet orderID, EvLog ''Error fetching accrual for order'' orderID err])
      | Inr accrualResp \<Rightarrow>
          if Status accrualResp = ''REGISTERED'' \<or> Status accrualResp = ''PROCESSING'' then
            (if retryCount < 3 then
               retry_loop dec inv_fails f orderID (retryCount + 1) (\<lambda>k. responses (Suc k))
                 (s, tr @ [EvGet orderID, EvSleep (5 * Second)])
             else (s, tr @ [EvGet orderID]))
          else if Status accrualResp = ''INVALID'' then
            (case SetOrderStatusInvalid inv_fails s orderID of
               (None, s') \<Rightarrow> (s', tr @ [EvGet orderID, EvSetOrderStatusInvalid orderID])
             | (Some err, s') \<Rightarrow>
                 (s', tr @ [EvGet orderID, EvSetOrderStatusInvalid orderID,
                            EvLog ''Error setting order status to INVALID'' orderID err]))
          else
            (case UpdateOrderStatus f s (OrderNumber accrualResp) (Status accrualResp)
                    (Accrual accrualResp) of
               (None, s') \<Rightarrow>
                 (s', tr @ [EvGet orderID,
                            EvUpdateOrderStatus (OrderNumber accrualResp) (Status accrualResp)
                              (Accrual accrualResp)])
             | (Some err, s') \<Rightarrow>
                 (s', tr @ [EvGet orderID,
                            EvUpdateOrderStatus (OrderNumber accrualResp) (Status accrualResp)
                              (Accrual accrualResp),
                            EvLog ''Error updating order status'' orderID err])))"
  by pat_completeness auto
termination
  by (relation "measure (\<lambda>(dec, inv_fails, f, orderID, retryCount, responses, st). 3 - retryCount)")
     auto

declare retry_loop.simps [simp del]

text \<open>
  The outer loop \<^verbatim>\<open>for orderID := range orderChan\<close>: the items this worker receives,
  each with its environment, resolved one after the other with \<^verbatim>\<open>retryCount\<close>
  starting at 0.
\<close>

definition resolve ::
  "('b \<Rightarrow> decode_error + AccrualResponse) \<Rightarrow> 'b item_env \<Rightarrow> string \<Rightarrow>
   store \<times> event list \<Rightarrow> store \<times> event list" where
  "resolve dec env orderID st =
     retry_loop dec (invalid_fails env) (update_faults env) orderID 0 (http env) st"

fun worker ::
  "('b \<Rightarrow> decode_error + AccrualResponse) \<Rightarrow> (string \<times> 'b item_env) list \<Rightarrow>
   store \<times> event list \<Rightarrow> store \<times> event list" where
  "worker dec [] st = st"
| "worker dec ((orderID, env) # rest) st = worker dec rest (resolve dec env orderID st)"

subsection \<open>Sequences of operations of the subsystem\<close>

text \<open>
  A run of the subsystem, one operation after the other: a tick of the dispatch loop,
  or a worker receiving the oldest identifier of the channel and resolving it (a
  worker that finds the channel empty waits, which changes nothing).
\<close>

datatype 'b operation =
    OpTick query_outcome query_outcome timestamp
  | OpWork "'b item_env"

fun step ::
  "('b \<Rightarrow> decode_error + AccrualResponse) \<Rightarrow> store \<times> string list \<Rightarrow> 'b operation \<Rightarrow>
   store \<times> string list" where
  "step dec st (OpTick q_new q_stale now) = snd (tick q_new q_stale now st)"
| "step dec (s, []) (OpWork env) = (s, [])"
| "step dec (s, orderID # chan) (OpWork env) = (fst (resolve dec env orderID (s, [])), chan)"

definition run ::
  "('b \<Rightarrow> decode_error + AccrualResponse) \<Rightarrow> 'b operation list \<Rightarrow> store \<times> string list \<Rightarrow>
   store \<times> string list" where
  "run dec ops st = foldl (step dec) st ops"

section \<open>Notions used in the properties\<close>

text \<open>The accrual service has not finished scoring: the statuses the worker retries on.\<close>

definition pending :: "AccrualResponse \<Rightarrow> bool" where
  "pending resp \<longleftrightarrow> Status resp = ''REGISTERED'' \<or> Status resp = ''PROCESSING''"

text \<open>
  The position of a status on the path from \<^verbatim>\<open>NEW\<close> over \<^verbatim>\<open>PROCESSING\<close> to the
  terminal statuses: \<^verbatim>\<open>INVALID\<close> and whatever else a worker writes as scored.
\<close>

definition rank :: "string \<Rightarrow> nat" where
  "rank st = (if st = ''NEW'' then 0 else if st = ''PROCESSING'' then 1 else 2)"

definition forward :: "order_row \<Rightarrow> order_row \<Rightarrow> bool" where
  "forward r r' \<longleftrightarrow> order_number r' = order_number r \<and> rank (status r) \<le> rank (status r')"

definition never_NEW :: "('b \<Rightarrow> decode_error + AccrualResponse) \<Rightarrow> (nat \<Rightarrow> 'b http_result) \<Rightarrow> bool" where
  "never_NEW dec responses \<longleftrightarrow>
     (\<forall>k resp. fetchAccrualForOrder dec (responses k) = Inr resp \<longrightarrow> Status resp \<noteq> ''NEW'')"

fun reports_no_NEW :: "('b \<Rightarrow> decode_error + AccrualResponse) \<Rightarrow> 'b operation \<Rightarrow> bool" where
  "reports_no_NEW dec (OpTick q_new q_stale now) = True"
| "reports_no_NEW dec (OpWork env) = never_NEW dec (http env)"

section \<open>Example inputs\<close>

definition alice :: user_row where
  "alice = \<lparr>login = ''alice'', password = ''hash'', current_balance = 0, withdrawn = 0\<rparr>"

definition order_A :: "string \<Rightarrow> real \<Rightarrow> order_row" where
  "order_A st acc =
     \<lparr>order_number = ''A'', status = st, accrual = acc, uploaded_at = 0, last_changed_at = 0,
      login_users = ''alice''\<rparr>"

text \<open>One user and her one order, uploaded at time 0, in the status given.\<close>

definition shop :: "string \<Rightarrow> store" where
  "shop st = \<lparr>users = [alice], orders = [order_A st 0]\<rparr>"

definition scored_once :: store where
  "scored_once = snd (UpdateOrderStatus no_faults (shop ''PROCESSING'') ''A'' ''PROCESSED'' 500)"

definition scored_twice :: store where
  "scored_twice = snd (UpdateOrderStatus no_faults scored_once ''A'' ''PROCESSED'' 500)"

text \<open>An accrual service that gives the same answer to every query, as a JSON object.\<close>

definition answer :: "string \<Rightarrow> string \<Rightarrow> real \<Rightarrow> nat \<Rightarrow> json option http_result" where
  "answer num st acc =
     (\<lambda>k. Response 200
        (Some (JObject [(''order'', JString num), (''status'', JString st),
                        (''accrual'', JNumber acc)])))"

definition exact :: "json option \<Rightarrow> decode_error + AccrualResponse" where
  "exact = decodeAccrualResponse (=)"

text \<open>An item during whose processing the database does not fail.\<close>

definition calm :: "(nat \<Rightarrow> 'b http_result) \<Rightarrow> 'b item_env" where
  "calm responses = \<lparr>http = responses, invalid_fails = False, update_faults = no_faults\<rparr>"

text \<open>An accrual service that answers the first query and cannot be reached afterwards.\<close>

definition flaky :: "nat \<Rightarrow> json option http_result" where
  "flaky k = (if k = 0 then answer ''A'' ''PROCESSING'' 0 k else GetFailed)"

text \<open>
  A tick 200 seconds after the upload, then two workers, each receiving one identifier:
  the accrual service answers \<^verbatim>\<open>PROCESSED\<close> with 500 points to the first and \<^verbatim>\<open>INVALID\<close>
  to the second.
\<close>

definition three_steps :: "json option operation list" where
  "three_steps =
     [OpTick QueryOk QueryOk (200 * Second),
      OpWork (calm (answer ''A'' ''PROCESSED'' 500)),
      OpWork (calm (answer ''A'' ''INVALID'' 0))]"

text \<open>A tick, then a worker to whom the accrual service answers with the status \<^verbatim>\<open>NEW\<close>.\<close>

definition back_to_new :: "json option operation list" where
  "back_to_new =
     [OpTick QueryOk QueryOk (200 * Second),
      OpWork (calm (answer ''A'' ''NEW'' 0))]"

section \<open>The retry loop\<close>

lemma retry_loop_error:
  "fetchAccrualForOrder dec (responses 0) = Inl err \<Longrightarrow>
   retry_loop dec inv_fails f orderID retryCount responses (s, tr) =
     (s, tr @ [EvGet orderID, EvLog ''Error fetching accrual for order'' orderID err])"
  by (subst retry_loop.simps) simp

lemma retry_loop_pending:
  "fetchAccrualForOrder dec (responses 0) = Inr resp \<Longrightarrow> pending resp \<Longrightarrow>
   retry_loop dec inv_fails f orderID retryCount responses (s, tr) =
     (if retryCount < 3 then
        retry_loop dec inv_fails f orderID (retryCount + 1) (\<lambda>k. responses (Suc k))
          (s, tr @ [EvGet orderID, EvSleep (5 * Second)])
      else (s, tr @ [EvGet orderID]))"
  by (subst retry_loop.simps) (simp add: pending_def)

lemma retry_loop_invalid:
  "fetchAccrualForOrder dec (responses 0) = Inr resp \<Longrightarrow> Status resp = ''INVALID'' \<Longrightarrow>
   retry_loop dec inv_fails f orderID retryCount responses (s, tr) =
     (case SetOrderStatusInvalid inv_fails s orderID of
        (None, s') \<Rightarrow> (s', tr @ [EvGet orderID, EvSetOrderStatusInvalid orderID])
      | (Some err, s') \<Rightarrow>
          (s', tr @ [EvGet orderID, EvSetOrderStatusInvalid orderID,
                     EvLog ''Error setting order status to INVALID'' orderID err]))"
  by (subst retry_loop.simps) simp

lemma retry_loop_scored:
  "fetchAccrualForOrder dec (responses 0) = Inr resp \<Longrightarrow> \<not> pending resp \<Longrightarrow>
   Status resp \<noteq> ''INVALID'' \<Longrightarrow>
   retry_loop dec inv_fails f orderID retryCount responses (s, tr) =
     (case UpdateOrderStatus f s (OrderNumber resp) (Status resp) (Accrual resp) of
        (None, s') \<Rightarrow>
          (s', tr @ [EvGet orderID,
                     EvUpdateOrderStatus (OrderNumber resp) (Status resp) (Accrual resp)])
      | (Some err, s') \<Rightarrow>
          (s', tr @ [EvGet orderID,
                     EvUpdateOrderStatus (OrderNumber resp) (Status resp) (Accrual resp),
                     EvLog ''Error updating order status'' orderID err]))"
  by (subst retry_loop.simps) (simp add: pending_def)

lemma retry_loop_invalid_store:
  assumes "fetchAccrualForOrder dec (responses 0) = Inr resp" "Status resp = ''INVALID''"
  shows "fst (retry_loop dec inv_fails f orderID retryCount responses (s, tr)) =
         snd (SetOrderStatusInvalid inv_fails s orderID)"
proof (cases "SetOrderStatusInvalid inv_fails s orderID")
  case (Pair e s')
  then show ?thesis
    by (cases e) (simp_all add: retry_loop_invalid[of dec responses resp, OF assms])
qed

lemma retry_loop_scored_store:
  assumes "fetchAccrualForOrder dec (responses 0) = Inr resp" "\<not> pending resp"
    "Status resp \<noteq> ''INVALID''"
  shows "fst (retry_loop dec inv_fails f orderID retryCount responses (s, tr)) =
         snd (UpdateOrderStatus f s (OrderNumber resp) (Status resp) (Accrual resp))"
proof (cases "UpdateOrderStatus f s (OrderNumber resp) (Status resp) (Accrual resp)")
  case (Pair e s')
  then show ?thesis
    by (cases e) (simp_all add: retry_loop_scored[of dec responses resp, OF assms])
qed

text \<open>
  From any value of \<^verbatim>\<open>retryCount\<close>, answers that are all pending lead to one query and
  one sleep per retry left, and a last query.
\<close>

lemma retry_loop_all_pending:
  assumes "retryCount \<le> 3"
    and "\<forall>k. retryCount + k \<le> 3 \<longrightarrow>
           (\<exists>resp. fetchAccrualForOrder dec (responses k) = Inr resp \<and> pending resp)"
  shows "retry_loop dec inv_fails f orderID retryCount responses (s, tr) =
     (s, tr @ concat (replicate (3 - retryCount) [EvGet orderID, EvSleep (5 * Second)]) @
         [EvGet orderID])"
  using assms
proof (induction "3 - retryCount" arbitrary: retryCount responses tr)
  case 0
  then have rc: "retryCount = 3" by simp
  from 0(3) rc have "\<exists>resp. fetchAccrualForOrder dec (responses 0) = Inr resp \<and> pending resp"
    by (elim allE[of _ 0]) simp
  then obtain resp where r: "fetchAccrualForOrder dec (responses 0) = Inr resp" "pending resp"
    by blast
  show ?case using retry_loop_pending[of dec responses resp, OF r] rc by simp
next
  case (Suc n)
  then have lt: "retryCount < 3" by simp
  from Suc.prems lt have "\<exists>resp. fetchAccrualForOrder dec (responses 0) = Inr resp \<and> pending resp"
    by (elim allE[of _ 0]) simp
  then obtain resp where r: "fetchAccrualForOrder dec (responses 0) = Inr resp" "pending resp"
    by blast
  have n: "n = 3 - (retryCount + 1)" using Suc.hyps(2) by simp
  have le: "retryCount + 1 \<le> 3" using lt by simp
  have p: "\<forall>k. retryCount + 1 + k \<le> 3 \<longrightarrow>
             (\<exists>resp. fetchAccrualForOrder dec (responses (Suc k)) = Inr resp \<and> pending resp)"
    using Suc.prems(2) by simp
  have rep: "3 - retryCount = Suc (3 - (retryCount + 1))" using lt by simp
  have "retry_loop dec inv_fails f orderID retryCount responses (s, tr) =
        retry_loop dec inv_fails f orderID (retryCount + 1) (\<lambda>k. responses (Suc k))
          (s, tr @ [EvGet orderID, EvSleep (5 * Second)])"
    using retry_loop_pending[of dec responses resp, OF r] lt by simp
  also have "\<dots> = (s, (tr @ [EvGet orderID, EvSleep (5 * Second)]) @
       concat (replicate (3 - (retryCount + 1)) [EvGet orderID, EvSleep (5 * Second)]) @
       [EvGet orderID])"
    by (rule Suc.hyps(1)[OF n le p])
  finally show ?case by (simp add: rep del: One_nat_def)
qed

text \<open>
  C3. When the accrual service answers \<^verbatim>\<open>REGISTERED\<close> or \<^verbatim>\<open>PROCESSING\<close> to each of
  the four queries, the worker queries exactly four times for the identifier it
  received, sleeps five seconds between two queries, and calls no operation of the
  repository: the store it leaves is the store it found.
\<close>

theorem retry_bound:
  assumes "\<forall>k<4. \<exists>resp. fetchAccrualForOrder dec (http env k) = Inr resp \<and>
                    (Status resp = ''REGISTERED'' \<or> Status resp = ''PROCESSING'')"
  shows "resolve dec env orderID (s, tr) =
           (s, tr @ [EvGet orderID, EvSleep (5 * Second),
                     EvGet orderID, EvSleep (5 * Second),
                     EvGet orderID, EvSleep (5 * Second),
                     EvGet orderID])"
proof -
  have "\<forall>k. 0 + k \<le> 3 \<longrightarrow>
          (\<exists>resp. fetchAccrualForOrder dec (http env k) = Inr resp \<and> pending resp)"
    using assms by (simp add: pending_def)
  then have "retry_loop dec (invalid_fails env) (update_faults env) orderID 0 (http env) (s, tr) =
     (s, tr @ concat (replicate (3 - 0) [EvGet orderID, EvSleep (5 * Second)]) @ [EvGet orderID])"
    by (intro retry_loop_all_pending) simp_all
  then show ?thesis
    by (simp add: resolve_def numeral_3_eq_3)
qed

lemma exact_answer:
  "fetchAccrualForOrder exact (answer num st acc k) =
     Inr \<lparr>OrderNumber = num, Status = st, Accrual = acc\<rparr>"
  by (simp add: fetchAccrualForOrder_def exact_def answer_def decodeAccrualResponse_def
      zero_response_def)

theorem retry_bound_witness:
  "fetchAccrualForOrder exact (answer ''A'' ''PROCESSING'' 0 0) =
     Inr \<lparr>OrderNumber = ''A'', Status = ''PROCESSING'', Accrual = 0\<rparr> \<and>
   resolve exact (calm (answer ''A'' ''PROCESSING'' 0)) ''A'' (shop ''PROCESSING'', []) =
     (shop ''PROCESSING'',
      [EvGet ''A'', EvSleep 5000000000, EvGet ''A'', EvSleep 5000000000,
       EvGet ''A'', EvSleep 5000000000, EvGet ''A''])"
proof -
  have h: "\<forall>k<4. \<exists>resp.
             fetchAccrualForOrder exact (http (calm (answer ''A'' ''PROCESSING'' 0)) k) = Inr resp \<and>
             (Status resp = ''REGISTERED'' \<or> Status resp = ''PROCESSING'')"
    by (simp add: calm_def exact_answer)
  show ?thesis
    using retry_bound [OF h, of "''A''" "shop ''PROCESSING''" "[]"]
    by (simp add: exact_answer Second_def)
qed

section \<open>Dispatch\<close>

lemma send_all_eq: "send_all chan os = chan @ map Number os"
  by (induction os arbitrary: chan) simp_all

lemma Number_scan_new_order: "Number (scan_new_order r) = order_number r"
  by (simp add: scan_new_order_def)

lemma Number_scan_order: "Number (scan_order r) = order_number r"
  by (simp add: scan_order_def)

lemma order_number_claim_returning:
  "map order_number (claim_returning rows) = map order_number (filter (\<lambda>r. status r = ''NEW'') rows)"
  by (simp add: claim_returning_def claim_row_def)

lemma order_number_claim_update: "map order_number (claim_update rows) = map order_number rows"
  by (simp add: claim_update_def claim_row_def)

lemma fetchAndQueueOrders_ok:
  "fetchAndQueueOrders QueryOk (s, chan) =
     (None, (s\<lparr>orders := claim_update (orders s)\<rparr>,
             chan @ map order_number (filter (\<lambda>r. status r = ''NEW'') (orders s))))"
proof -
  have "map Number (map scan_new_order (claim_returning (orders s))) =
        map order_number (filter (\<lambda>r. status r = ''NEW'') (orders s))"
    by (simp add: Number_scan_new_order comp_def claim_returning_def claim_row_def)
  then show ?thesis
    by (simp add: fetchAndQueueOrders_def GetNewOrders_def send_all_eq del: map_map)
qed

lemma fetchAndQueueStaleOrders_ok:
  "fetchAndQueueStaleOrders QueryOk now (s, chan) =
     (None, (s, chan @ map order_number (filter (is_stale now staleThreshold) (orders s))))"
  by (simp add: fetchAndQueueStaleOrders_def GetStaleProcessingOrders_def send_all_eq
      Number_scan_order comp_def)










text \<open>
  C6, as the code has it: the claim sets the status and nothing else. Whatever the
  outcome of the query, every order keeps its last-changed timestamp; when the query
  succeeds, the orders found \<^verbatim>\<open>NEW\<close> differ from before in their status only.
\<close>

theorem claim_keeps_last_changed:
  "map last_changed_at (orders (snd (GetNewOrders q s))) = map last_changed_at (orders s) \<and>
   orders (snd (GetNewOrders QueryOk s)) =
     map (\<lambda>r. if status r = ''NEW'' then r\<lparr>status := ''PROCESSING''\<rparr> else r) (orders s)"
  by (cases q) (simp_all add: GetNewOrders_def claim_update_def claim_row_def)

text \<open>
  C6 fails as stated: an order uploaded at time 0 and claimed by a tick 200 seconds
  later is \<^verbatim>\<open>PROCESSING\<close> with its last change still at time 0.
\<close>

theorem claim_at_200s_keeps_upload_time:
  "map status (orders (fst (snd (tick QueryOk QueryOk (200 * Second) (shop ''NEW'', []))))) =
     [''PROCESSING''] \<and>
   map last_changed_at (orders (fst (snd (tick QueryOk QueryOk (200 * Second) (shop ''NEW'', []))))) =
     [0]"
  by (simp add: tick_def fetchAndQueueOrders_ok fetchAndQueueStaleOrders_ok shop_def order_A_def
      claim_update_def claim_row_def)

section \<open>Finalization\<close>

lemmas example_defs = alice_def order_A_def shop_def no_faults_def
  UpdateOrderStatus_def set_status_accrual_def credit_owner_def owner_subquery_def add_balance_def
  GetBalance_def

lemma filter_key_unique:
  "distinct (map f xs) \<Longrightarrow> r \<in> set xs \<Longrightarrow> filter (\<lambda>x. f x = f r) xs = [r]"
proof (induction xs)
  case Nil
  then show ?case by simp
next
  case (Cons x xs)
  show ?case
  proof (cases "x = r")
    case True
    from Cons.prems(1) have "f x \<notin> f ` set xs" by simp
    then have "\<forall>y\<in>set xs. f y \<noteq> f x" by (metis image_eqI)
    with True have "\<forall>y\<in>set xs. f y \<noteq> f r" by simp
    then have "filter (\<lambda>x. f x = f r) xs = []" by (simp add: filter_empty_conv)
    with True show ?thesis by simp
  next
    case False
    with Cons.prems have "r \<in> set xs" "f x \<noteq> f r" by auto
    with Cons show ?thesis by simp
  qed
qed

lemma set_status_accrual_same:
  "\<forall>r\<in>set rows. order_number r = num \<longrightarrow> status r = st \<and> accrual r = p \<Longrightarrow>
   set_status_accrual st p num rows = rows"
  unfolding set_status_accrual_def by (induction rows) auto

lemma set_invalid_same:
  "\<forall>r\<in>set rows. order_number r = num \<longrightarrow> status r = ''INVALID'' \<Longrightarrow>
   set_invalid num rows = rows"
  unfolding set_invalid_def by (induction rows) auto

lemma key_unique_row:
  "distinct (map f xs) \<Longrightarrow> r \<in> set xs \<Longrightarrow> r' \<in> set xs \<Longrightarrow> f r' = f r \<Longrightarrow> r' = r"
  by (metis distinct_map inj_on_def)

lemma GetBalance_add_balance:
  "GetBalance False (s\<lparr>users := add_balance p l (users s)\<rparr>) u =
     (case GetBalance False s u of
        Inl e \<Rightarrow> Inl e
      | Inr b \<Rightarrow> Inr (if u = l then b\<lparr>CurrentBalance := CurrentBalance b + p\<rparr> else b))"
proof -
  have "filter (\<lambda>x. login x = u) (add_balance p l rows) =
        map (\<lambda>x. if u = l then x\<lparr>current_balance := current_balance x + p\<rparr> else x)
          (filter (\<lambda>x. login x = u) rows)" for rows
    unfolding add_balance_def by (induction rows) auto
  then show ?thesis
    by (cases "filter (\<lambda>x. login x = u) (users s)") (simp_all add: GetBalance_def)
qed

text \<open>
  C1, as the code has it. Order numbers are the primary key of the table. Finalizing
  an order that is already \<^verbatim>\<open>INVALID\<close> as \<^verbatim>\<open>INVALID\<close> again changes nothing. Finalizing
  an order a second time with the status and point value it already has, when every
  database call succeeds, leaves the table of orders as it is (so the committed status
  and point value stay) and adds the point value to the balance of the owner once
  more; no other balance changes.
\<close>

theorem refinalization:
  assumes "distinct (map order_number (orders s))"
    and "r \<in> set (orders s)"
  shows "(status r = ''INVALID'' \<longrightarrow>
            SetOrderStatusInvalid False s (order_number r) = (None, s)) \<and>
         (\<exists>s'. UpdateOrderStatus no_faults s (order_number r) (status r) (accrual r) = (None, s') \<and>
               orders s' = orders s \<and>
               (\<forall>u. GetBalance False s' u =
                  (case GetBalance False s u of
                     Inl e \<Rightarrow> Inl e
                   | Inr b \<Rightarrow>
                       Inr (if u = login_users r
                            then b\<lparr>CurrentBalance := CurrentBalance b + accrual r\<rparr> else b))))"
proof (intro conjI impI)
  assume inv: "status r = ''INVALID''"
  have "\<forall>r'\<in>set (orders s). order_number r' = order_number r \<longrightarrow> status r' = ''INVALID''"
    using key_unique_row[OF assms(1) assms(2)] inv by blast
  then have "set_invalid (order_number r) (orders s) = orders s"
    by (rule set_invalid_same)
  then show "SetOrderStatusInvalid False s (order_number r) = (None, s)"
    by (simp add: SetOrderStatusInvalid_def)
next
  have "\<forall>r'\<in>set (orders s). order_number r' = order_number r \<longrightarrow>
          status r' = status r \<and> accrual r' = accrual r"
    using key_unique_row[OF assms(1) assms(2)] by blast
  then have same: "set_status_accrual (status r) (accrual r) (order_number r) (orders s) = orders s"
    by (rule set_status_accrual_same)
  have own: "owner_subquery (order_number r) (orders s) = Inr (Some (login_users r))"
    using filter_key_unique[OF assms] by (simp add: owner_subquery_def)
  have upd: "UpdateOrderStatus no_faults s (order_number r) (status r) (accrual r) =
        (None, s\<lparr>users := add_balance (accrual r) (login_users r) (users s)\<rparr>)"
    by (simp add: UpdateOrderStatus_def no_faults_def same credit_owner_def own)
  show "\<exists>s'. UpdateOrderStatus no_faults s (order_number r) (status r) (accrual r) = (None, s') \<and>
               orders s' = orders s \<and>
               (\<forall>u. GetBalance False s' u =
                  (case GetBalance False s u of
                     Inl e \<Rightarrow> Inl e
                   | Inr b \<Rightarrow>
                       Inr (if u = login_users r
                            then b\<lparr>CurrentBalance := CurrentBalance b + accrual r\<rparr> else b)))"
    unfolding upd by (intro exI[of _ "s\<lparr>users := add_balance (accrual r) (login_users r) (users s)\<rparr>"])
      (simp add: GetBalance_add_balance)
qed

theorem refinalization_witness:
  "distinct (map order_number (orders scored_once)) \<and>
   order_A ''PROCESSED'' 500 \<in> set (orders scored_once) \<and>
   UpdateOrderStatus no_faults scored_once ''A'' ''PROCESSED'' 500 = (None, scored_twice) \<and>
   orders scored_twice = orders scored_once \<and>
   GetBalance False scored_once ''alice'' = Inr \<lparr>CurrentBalance = 500, Withdrawn = 0\<rparr> \<and>
   GetBalance False scored_twice ''alice'' = Inr \<lparr>CurrentBalance = 500 + 500, Withdrawn = 0\<rparr>"
proof -
  have h1: "distinct (map order_number (orders scored_once))"
    by (simp add: scored_once_def example_defs)
  have h2: "order_A ''PROCESSED'' 500 \<in> set (orders scored_once)"
    by (simp add: scored_once_def example_defs)
  show ?thesis
    using h1 h2 refinalization [OF h1 h2]
    by (simp add: scored_once_def scored_twice_def example_defs)
qed

text \<open>
  C1 fails as stated: an order scored 500 and finalized again with the same result
  keeps its row, and the balance of its owner goes from 500 to 1000.
\<close>

theorem second_finalization_credits_again:
  "orders scored_once = [order_A ''PROCESSED'' 500] \<and>
   GetBalance False scored_once ''alice'' = Inr \<lparr>CurrentBalance = 500, Withdrawn = 0\<rparr> \<and>
   orders scored_twice = [order_A ''PROCESSED'' 500] \<and>
   GetBalance False scored_twice ''alice'' = Inr \<lparr>CurrentBalance = 1000, Withdrawn = 0\<rparr>"
  by (simp add: scored_once_def scored_twice_def example_defs)

text \<open>
  C2 at a failing input: the order \<^verbatim>\<open>A\<close> is \<^verbatim>\<open>PROCESSING\<close>, the accrual result is
  \<^verbatim>\<open>PROCESSED\<close> with 500 points, the update of the order succeeds and the update of the
  balance fails. The function returns the error, the row of the order keeps the new
  status and point value, and the balance is not credited. And when both updates
  succeed and \<^verbatim>\<open>Commit\<close> fails, the function returns the error and both updates stay.
\<close>

theorem order_row_committed_without_credit:
  "UpdateOrderStatus (no_faults\<lparr>exec_users_fails := True\<rparr>) (shop ''PROCESSING'')
     ''A'' ''PROCESSED'' 500 =
     (Some ExecFailed, \<lparr>users = [alice], orders = [order_A ''PROCESSED'' 500]\<rparr>) \<and>
   GetBalance False \<lparr>users = [alice], orders = [order_A ''PROCESSED'' 500]\<rparr> ''alice'' =
     Inr \<lparr>CurrentBalance = 0, Withdrawn = 0\<rparr> \<and>
   UpdateOrderStatus (no_faults\<lparr>commit_fails := True\<rparr>) (shop ''PROCESSING'')
     ''A'' ''PROCESSED'' 500 =
     (Some CommitFailed,
      \<lparr>users = [alice\<lparr>current_balance := 500\<rparr>], orders = [order_A ''PROCESSED'' 500]\<rparr>)"
  by (simp add: example_defs)

section \<open>The accrual client and the worker\<close>

text \<open>
  An error at the query number \<open>k\<close>, after \<open>k\<close> pending answers: the worker has slept
  \<open>k\<close> times, logs the error and leaves the store as it found it.
\<close>

lemma retry_loop_error_after:
  assumes "retryCount + k \<le> 3"
    and "\<forall>j<k. \<exists>resp. fetchAccrualForOrder dec (responses j) = Inr resp \<and> pending resp"
    and "fetchAccrualForOrder dec (responses k) = Inl err"
  shows "retry_loop dec inv_fails f orderID retryCount responses (s, tr) =
     (s, tr @ concat (replicate k [EvGet orderID, EvSleep (5 * Second)]) @
         [EvGet orderID, EvLog ''Error fetching accrual for order'' orderID err])"
  using assms
proof (induction k arbitrary: retryCount responses tr)
  case 0
  then show ?case by (simp add: retry_loop_error)
next
  case (Suc k)
  from Suc.prems(2) have "\<exists>resp. fetchAccrualForOrder dec (responses 0) = Inr resp \<and> pending resp"
    by (elim allE[of _ 0]) simp
  then obtain resp where r: "fetchAccrualForOrder dec (responses 0) = Inr resp" "pending resp"
    by blast
  from Suc.prems(1) have lt: "retryCount < 3" by simp
  have le: "retryCount + 1 + k \<le> 3" using Suc.prems(1) by simp
  have p: "\<forall>j<k. \<exists>resp. fetchAccrualForOrder dec (responses (Suc j)) = Inr resp \<and> pending resp"
    using Suc.prems(2) by auto
  have "retry_loop dec inv_fails f orderID retryCount responses (s, tr) =
        retry_loop dec inv_fails f orderID (retryCount + 1) (\<lambda>j. responses (Suc j))
          (s, tr @ [EvGet orderID, EvSleep (5 * Second)])"
    using retry_loop_pending[of dec responses resp, OF r] lt by simp
  also have "\<dots> = (s, (tr @ [EvGet orderID, EvSleep (5 * Second)]) @
       concat (replicate k [EvGet orderID, EvSleep (5 * Second)]) @
       [EvGet orderID, EvLog ''Error fetching accrual for order'' orderID err])"
    by (rule Suc.IH[OF le p Suc.prems(3)])
  finally show ?case by simp
qed

text \<open>
  C8. The accrual client returns a response exactly when \<^verbatim>\<open>http.Get\<close> returned a
  response with status code 200 whose body decodes, and then it returns the decoded
  body. It returns an error when the service cannot be reached, when the status code
  is not 200 and when the body does not decode. When a query of the worker ends in an
  error, at the first attempt or after retries, the worker logs it and goes on to the
  next item: it calls no operation of the repository and leaves the store as it found
  it.
\<close>

theorem accrual_client_contract:
  "(fetchAccrualForOrder dec r = Inr resp \<longleftrightarrow> (\<exists>body. r = Response 200 body \<and> dec body = Inr resp)) \<and>
   fetchAccrualForOrder dec GetFailed = Inl TransportError \<and>
   (code \<noteq> 200 \<longrightarrow> fetchAccrualForOrder dec (Response code body) = Inl (Non200 code)) \<and>
   (dec body = Inl e \<longrightarrow> fetchAccrualForOrder dec (Response 200 body) = Inl (DecodeFailed e)) \<and>
   (k \<le> 3 \<and> (\<forall>j<k. \<exists>resp. fetchAccrualForOrder dec (http env j) = Inr resp \<and> pending resp) \<and>
    fetchAccrualForOrder dec (http env k) = Inl err \<longrightarrow>
      resolve dec env orderID (s, tr) =
        (s, tr @ concat (replicate k [EvGet orderID, EvSleep (5 * Second)]) @
            [EvGet orderID, EvLog ''Error fetching accrual for order'' orderID err]))"
proof (intro conjI impI)
  show "fetchAccrualForOrder dec r = Inr resp \<longleftrightarrow> (\<exists>body. r = Response 200 body \<and> dec body = Inr resp)"
    by (cases r) (auto simp: fetchAccrualForOrder_def split: sum.splits)
  show "fetchAccrualForOrder dec GetFailed = Inl TransportError"
    by (simp add: fetchAccrualForOrder_def)
  show "fetchAccrualForOrder dec (Response code body) = Inl (Non200 code)" if "code \<noteq> 200"
    using that by (simp add: fetchAccrualForOrder_def)
  show "fetchAccrualForOrder dec (Response 200 body) = Inl (DecodeFailed e)" if "dec body = Inl e"
    using that by (simp add: fetchAccrualForOrder_def)
  show "resolve dec env orderID (s, tr) =
        (s, tr @ concat (replicate k [EvGet orderID, EvSleep (5 * Second)]) @
            [EvGet orderID, EvLog ''Error fetching accrual for order'' orderID err])"
    if "k \<le> 3 \<and> (\<forall>j<k. \<exists>resp. fetchAccrualForOrder dec (http env j) = Inr resp \<and> pending resp) \<and>
        fetchAccrualForOrder dec (http env k) = Inl err"
    unfolding resolve_def using that by (intro retry_loop_error_after) simp_all
qed

theorem accrual_client_contract_witness:
  "fetchAccrualForOrder exact (Response 404 None) = Inl (Non200 404) \<and>
   fetchAccrualForOrder exact (Response 200 None) = Inl (DecodeFailed SyntaxError) \<and>
   resolve exact (calm flaky) ''A'' (shop ''PROCESSING'', []) =
     (shop ''PROCESSING'',
      [EvGet ''A'', EvSleep 5000000000, EvGet ''A'',
       EvLog ''Error fetching accrual for order'' ''A'' TransportError])"
proof -
  have d: "exact None = Inl SyntaxError"
    by (simp add: exact_def decodeAccrualResponse_def)
  have p: "(1::nat) \<le> 3 \<and>
      (\<forall>j<1. \<exists>resp. fetchAccrualForOrder exact (http (calm flaky) j) = Inr resp \<and> pending resp) \<and>
      fetchAccrualForOrder exact (http (calm flaky) 1) = Inl TransportError"
  proof (intro conjI)
    show "(1::nat) \<le> 3" by simp
    show "\<forall>j<1. \<exists>resp. fetchAccrualForOrder exact (http (calm flaky) j) = Inr resp \<and> pending resp"
      by (simp add: calm_def flaky_def exact_answer pending_def)
    have "http (calm flaky) 1 = GetFailed"
      by (simp add: calm_def flaky_def)
    then show "fetchAccrualForOrder exact (http (calm flaky) 1) = Inl TransportError"
      by (simp add: fetchAccrualForOrder_def)
  qed
  show ?thesis
    using d p
      accrual_client_contract [where dec = exact and code = 404 and body = None
        and e = SyntaxError and k = 1 and env = "calm flaky" and err = TransportError
        and orderID = "''A''" and s = "shop ''PROCESSING''" and tr = "[]"]
    by (simp add: Second_def)
qed

text \<open>
  C10. A response with status code 200 whose body is the empty JSON object decodes,
  whatever the matching of keys, to the response with an empty order number, an empty
  status and no points. The worker takes neither the retry branch nor the \<^verbatim>\<open>INVALID\<close>
  branch: it calls \<^verbatim>\<open>UpdateOrderStatus\<close> with the empty order number of the response,
  not with the identifier it received. In general, when the first answer is neither
  pending nor \<^verbatim>\<open>INVALID\<close>, the store the worker leaves is the one \<^verbatim>\<open>UpdateOrderStatus\<close>
  returns for the order number, status and points of the response.
\<close>

theorem empty_object_is_scored:
  "fetchAccrualForOrder (decodeAccrualResponse same) (Response 200 (Some (JObject []))) =
     Inr \<lparr>OrderNumber = [], Status = [], Accrual = 0\<rparr> \<and>
   resolve (decodeAccrualResponse same)
       \<lparr>http = (\<lambda>k. Response 200 (Some (JObject []))), invalid_fails = inv_fails,
        update_faults = f\<rparr> orderID (s, tr) =
     (snd (UpdateOrderStatus f s [] [] 0),
      tr @ [EvGet orderID, EvUpdateOrderStatus [] [] 0] @
        (case fst (UpdateOrderStatus f s [] [] 0) of
           None \<Rightarrow> []
         | Some err \<Rightarrow> [EvLog ''Error updating order status'' orderID err])) \<and>
   (fetchAccrualForOrder dec (http env 0) = Inr resp \<and> \<not> pending resp \<and>
    Status resp \<noteq> ''INVALID'' \<longrightarrow>
      fst (resolve dec env orderID (s, tr)) =
        snd (UpdateOrderStatus (update_faults env) s (OrderNumber resp) (Status resp)
               (Accrual resp)))"
proof (intro conjI impI)
  show z: "fetchAccrualForOrder (decodeAccrualResponse same) (Response 200 (Some (JObject []))) =
     Inr \<lparr>OrderNumber = [], Status = [], Accrual = 0\<rparr>"
    by (simp add: fetchAccrualForOrder_def decodeAccrualResponse_def zero_response_def)
  have "retry_loop (decodeAccrualResponse same) inv_fails f orderID 0
          (\<lambda>k. Response 200 (Some (JObject []))) (s, tr) =
     (snd (UpdateOrderStatus f s [] [] 0),
      tr @ [EvGet orderID, EvUpdateOrderStatus [] [] 0] @
        (case fst (UpdateOrderStatus f s [] [] 0) of
           None \<Rightarrow> []
         | Some err \<Rightarrow> [EvLog ''Error updating order status'' orderID err]))"
    by (subst retry_loop_scored[where resp = "\<lparr>OrderNumber = [], Status = [], Accrual = 0\<rparr>"])
       (auto simp: z pending_def split: prod.splits option.splits)
  then show "resolve (decodeAccrualResponse same)
       \<lparr>http = (\<lambda>k. Response 200 (Some (JObject []))), invalid_fails = inv_fails,
        update_faults = f\<rparr> orderID (s, tr) =
     (snd (UpdateOrderStatus f s [] [] 0),
      tr @ [EvGet orderID, EvUpdateOrderStatus [] [] 0] @
        (case fst (UpdateOrderStatus f s [] [] 0) of
           None \<Rightarrow> []
         | Some err \<Rightarrow> [EvLog ''Error updating order status'' orderID err]))"
    by (simp add: resolve_def)
  show "fst (resolve dec env orderID (s, tr)) =
        snd (UpdateOrderStatus (update_faults env) s (OrderNumber resp) (Status resp)
               (Accrual resp))"
    if "fetchAccrualForOrder dec (http env 0) = Inr resp \<and> \<not> pending resp \<and>
        Status resp \<noteq> ''INVALID''"
    unfolding resolve_def using that
    by (intro retry_loop_scored_store[of dec "http env" resp]) simp_all
qed

text \<open>
  The worker received \<^verbatim>\<open>A\<close> and the accrual service answers for the order \<^verbatim>\<open>B\<close>: the
  update is made for \<^verbatim>\<open>B\<close>, which the store does not hold, and \<^verbatim>\<open>A\<close> stays as it was.
\<close>

theorem empty_object_is_scored_witness:
  "fetchAccrualForOrder exact (http (calm (answer ''B'' ''PROCESSED'' 500)) 0) =
     Inr \<lparr>OrderNumber = ''B'', Status = ''PROCESSED'', Accrual = 500\<rparr> \<and>
   fst (resolve exact (calm (answer ''B'' ''PROCESSED'' 500)) ''A'' (shop ''PROCESSING'', [])) =
     shop ''PROCESSING''"
proof -
  have h: "fetchAccrualForOrder exact (http (calm (answer ''B'' ''PROCESSED'' 500)) 0) =
             Inr \<lparr>OrderNumber = ''B'', Status = ''PROCESSED'', Accrual = 500\<rparr> \<and>
           \<not> pending \<lparr>OrderNumber = ''B'', Status = ''PROCESSED'', Accrual = 500\<rparr> \<and>
           Status \<lparr>OrderNumber = ''B'', Status = ''PROCESSED'', Accrual = 500\<rparr> \<noteq> ''INVALID''"
    by (simp add: calm_def exact_answer pending_def)
  show ?thesis
    using h
      empty_object_is_scored [where dec = exact and env = "calm (answer ''B'' ''PROCESSED'' 500)"
        and resp = "\<lparr>OrderNumber = ''B'', Status = ''PROCESSED'', Accrual = 500\<rparr>"
        and orderID = "''A''" and s = "shop ''PROCESSING''" and tr = "[]"]
    by (simp add: calm_def example_defs)
qed

section \<open>Status transitions\<close>

lemma forward_refl: "forward r r"
  by (simp add: forward_def)

lemma forward_trans: "forward a b \<Longrightarrow> forward b c \<Longrightarrow> forward a c"
  by (auto simp: forward_def)

lemma forward_rows_refl: "list_all2 forward rows rows"
  by (simp add: list_all2_same forward_refl)

lemma forward_rows_trans:
  "list_all2 forward xs ys \<Longrightarrow> list_all2 forward ys zs \<Longrightarrow> list_all2 forward xs zs"
  by (rule list_all2_trans[of forward forward forward]) (auto intro: forward_trans)

lemma forward_rows_map:
  "(\<And>r. r \<in> set rows \<Longrightarrow> forward r (g r)) \<Longrightarrow> list_all2 forward rows (map g rows)"
  by (simp add: list_all2_map2 list_all2_same)

lemma claim_update_forward: "list_all2 forward rows (claim_update rows)"
  unfolding claim_update_def
  by (rule forward_rows_map) (simp add: forward_def claim_row_def rank_def)

lemma set_invalid_forward: "list_all2 forward rows (set_invalid num rows)"
  unfolding set_invalid_def
  by (rule forward_rows_map) (simp add: forward_def rank_def)

lemma set_status_accrual_forward:
  "st \<noteq> ''NEW'' \<Longrightarrow> st \<noteq> ''PROCESSING'' \<Longrightarrow>
   list_all2 forward rows (set_status_accrual st acc num rows)"
  unfolding set_status_accrual_def
  by (rule forward_rows_map) (simp add: forward_def rank_def)

lemma credit_owner_orders: "credit_owner acc num s = Inr s' \<Longrightarrow> orders s' = orders s"
  by (auto simp: credit_owner_def split: sum.splits option.splits)

lemma GetNewOrders_forward: "list_all2 forward (orders s) (orders (snd (GetNewOrders q s)))"
  by (cases q) (simp_all add: GetNewOrders_def claim_update_forward forward_rows_refl)

lemma SetOrderStatusInvalid_forward:
  "list_all2 forward (orders s) (orders (snd (SetOrderStatusInvalid inv_fails s num)))"
  by (simp add: SetOrderStatusInvalid_def set_invalid_forward forward_rows_refl)

lemma UpdateOrderStatus_forward:
  assumes "st \<noteq> ''NEW''" "st \<noteq> ''PROCESSING''"
  shows "list_all2 forward (orders s) (orders (snd (UpdateOrderStatus f s num st acc)))"
proof -
  let ?s1 = "s\<lparr>orders := set_status_accrual st acc num (orders s)\<rparr>"
  have s1: "list_all2 forward (orders s) (orders ?s1)"
    using assms by (simp add: set_status_accrual_forward)
  have "orders (snd (UpdateOrderStatus f s num st acc)) = orders s \<or>
        orders (snd (UpdateOrderStatus f s num st acc)) = orders ?s1"
    by (auto simp: UpdateOrderStatus_def Let_def split: sum.splits dest: credit_owner_orders)
  then show ?thesis
    using s1 forward_rows_refl[of "orders s"] by auto
qed

lemma never_NEW_shift: "never_NEW dec responses \<Longrightarrow> never_NEW dec (\<lambda>k. responses (Suc k))"
  by (simp add: never_NEW_def)

lemma retry_loop_forward:
  "never_NEW dec responses \<Longrightarrow>
   list_all2 forward (orders (fst st))
     (orders (fst (retry_loop dec inv_fails f orderID retryCount responses st)))"
proof (induction dec inv_fails f orderID retryCount responses st rule: retry_loop.induct)
  case (1 dec inv_fails f orderID retryCount responses s tr)
  show ?case
  proof (cases "fetchAccrualForOrder dec (responses 0)")
    case (Inl err)
    then show ?thesis by (simp add: retry_loop_error forward_rows_refl)
  next
    case (Inr resp)
    with "1.prems" have nn: "Status resp \<noteq> ''NEW''" by (auto simp: never_NEW_def)
    show ?thesis
    proof (cases "pending resp")
      case True
      show ?thesis
      proof (cases "retryCount < 3")
        case lt: True
        have "list_all2 forward (orders (fst (s, tr @ [EvGet orderID, EvSleep (5 * Second)])))
          (orders (fst (retry_loop dec inv_fails f orderID (retryCount + 1)
             (\<lambda>k. responses (Suc k)) (s, tr @ [EvGet orderID, EvSleep (5 * Second)]))))"
          using True lt by (intro "1.IH"[OF Inr _ _ never_NEW_shift[OF "1.prems"]])
            (simp_all add: pending_def)
        then show ?thesis
          using lt by (simp add: retry_loop_pending[of dec responses resp, OF Inr True])
      next
        case False
        then show ?thesis
          by (simp add: retry_loop_pending[of dec responses resp, OF Inr True] forward_rows_refl)
      qed
    next
      case np: False
      show ?thesis
      proof (cases "Status resp = ''INVALID''")
        case True
        show ?thesis
          using SetOrderStatusInvalid_forward[of s inv_fails orderID]
          by (simp add: retry_loop_invalid_store[of dec responses resp, OF Inr True])
      next
        case False
        from np have "Status resp \<noteq> ''PROCESSING''" by (simp add: pending_def)
        from UpdateOrderStatus_forward[OF nn this, of s f "OrderNumber resp" "Accrual resp"]
        show ?thesis
          by (simp add: retry_loop_scored_store[of dec responses resp, OF Inr np False])
      qed
    qed
  qed
qed

lemma fetchAndQueueOrders_store:
  "fst (snd (fetchAndQueueOrders q (s, chan))) = snd (GetNewOrders q s)"
  by (cases "GetNewOrders q s"; cases "fst (GetNewOrders q s)")
     (simp_all add: fetchAndQueueOrders_def)

lemma fetchAndQueueStaleOrders_store:
  "fst (snd (fetchAndQueueStaleOrders q now st)) = fst st"
  by (cases st; cases "GetStaleProcessingOrders q now (fst st) staleThreshold")
     (simp_all add: fetchAndQueueStaleOrders_def)

lemma tick_store:
  "fst (snd (tick q_new q_stale now (s, chan))) = snd (GetNewOrders q_new s)"
proof -
  obtain e1 st1 where 1: "fetchAndQueueOrders q_new (s, chan) = (e1, st1)"
    by (cases "fetchAndQueueOrders q_new (s, chan)")
  obtain e2 st2 where 2: "fetchAndQueueStaleOrders q_stale now st1 = (e2, st2)"
    by (cases "fetchAndQueueStaleOrders q_stale now st1")
  have "fst st2 = fst st1"
    using fetchAndQueueStaleOrders_store[of q_stale now st1] 2 by simp
  moreover have "fst st1 = snd (GetNewOrders q_new s)"
    using fetchAndQueueOrders_store[of q_new s chan] 1 by simp
  ultimately show ?thesis
    by (simp add: tick_def 1 2)
qed

lemma tick_forward:
  "list_all2 forward (orders (fst st)) (orders (fst (snd (tick q_new q_stale now st))))"
  by (cases st) (simp add: tick_store GetNewOrders_forward)

lemma step_forward:
  "reports_no_NEW dec op \<Longrightarrow>
   list_all2 forward (orders (fst st)) (orders (fst (step dec st op)))"
proof (induction dec st op rule: step.induct)
  case (1 dec st q_new q_stale now)
  show ?case using tick_forward[of st q_new q_stale now] by simp
next
  case (2 dec s env)
  show ?case by (simp add: forward_rows_refl)
next
  case (3 dec s orderID chan env)
  then have "never_NEW dec (http env)" by simp
  from retry_loop_forward[OF this, of "(s, [])"]
  show ?case by (simp add: resolve_def)
qed

lemma run_forward:
  "\<forall>op\<in>set ops. reports_no_NEW dec op \<Longrightarrow>
   list_all2 forward (orders (fst st)) (orders (fst (run dec ops st)))"
proof (induction ops arbitrary: st)
  case Nil
  show ?case by (simp add: run_def forward_rows_refl)
next
  case (Cons op ops)
  have a: "list_all2 forward (orders (fst st)) (orders (fst (step dec st op)))"
    using Cons.prems by (intro step_forward) simp
  have b: "list_all2 forward (orders (fst (step dec st op)))
             (orders (fst (run dec ops (step dec st op))))"
    using Cons.prems by (intro Cons.IH) simp
  show ?case
    using forward_rows_trans[OF a b] by (simp add: run_def)
qed

text \<open>
  C7, as the code has it. In every run of ticks and workers in which the accrual
  service never reports the status \<^verbatim>\<open>NEW\<close>, whatever the database does to the calls,
  every order keeps its place and its number and its status never moves back on the
  path from \<^verbatim>\<open>NEW\<close> over \<^verbatim>\<open>PROCESSING\<close> to the terminal statuses: an order that is
  \<^verbatim>\<open>NEW\<close> at the end was \<^verbatim>\<open>NEW\<close> at the start, and an order that was terminal at the
  start is terminal at the end. Which terminal status it has may change.
\<close>

theorem status_never_moves_back:
  assumes "\<forall>op\<in>set ops. reports_no_NEW dec op"
  shows "list_all2 forward (orders s) (orders (fst (run dec ops (s, chan)))) \<and>
         (\<forall>i<length (orders s).
            order_number (orders (fst (run dec ops (s, chan))) ! i) = order_number (orders s ! i) \<and>
            (status (orders (fst (run dec ops (s, chan))) ! i) = ''NEW'' \<longrightarrow>
               status (orders s ! i) = ''NEW'') \<and>
            (status (orders s ! i) \<noteq> ''NEW'' \<and> status (orders s ! i) \<noteq> ''PROCESSING'' \<longrightarrow>
               status (orders (fst (run dec ops (s, chan))) ! i) \<noteq> ''NEW'' \<and>
               status (orders (fst (run dec ops (s, chan))) ! i) \<noteq> ''PROCESSING''))"
proof (intro conjI allI impI)
  let ?rows = "orders (fst (run dec ops (s, chan)))"
  show f: "list_all2 forward (orders s) ?rows"
    using run_forward[OF assms, of "(s, chan)"] by simp
  fix i
  assume "i < length (orders s)"
  with f have fw: "forward (orders s ! i) (?rows ! i)"
    by (simp add: list_all2_conv_all_nth)
  show "order_number (?rows ! i) = order_number (orders s ! i)"
    using fw by (simp add: forward_def)
  show "status (orders s ! i) = ''NEW''" if "status (?rows ! i) = ''NEW''"
    using fw that by (simp add: forward_def rank_def split: if_splits)
  show "status (?rows ! i) \<noteq> ''NEW''"
    if "status (orders s ! i) \<noteq> ''NEW'' \<and> status (orders s ! i) \<noteq> ''PROCESSING''"
    using fw that by (simp add: forward_def rank_def split: if_splits)
  show "status (?rows ! i) \<noteq> ''PROCESSING''"
    if "status (orders s ! i) \<noteq> ''NEW'' \<and> status (orders s ! i) \<noteq> ''PROCESSING''"
    using fw that by (simp add: forward_def rank_def split: if_splits)
qed

theorem status_never_moves_back_witness:
  "list_all (reports_no_NEW exact) three_steps \<and>
   list_all2 forward (orders (shop ''NEW'')) (orders (fst (run exact three_steps (shop ''NEW'', []))))"
proof -
  have h: "\<forall>op\<in>set three_steps. reports_no_NEW exact op"
    by (simp add: three_steps_def never_NEW_def calm_def exact_answer)
  show ?thesis
    using h status_never_moves_back [OF h, of "shop ''NEW''" "[]"]
    by (simp add: list_all_iff)
qed

text \<open>
  C7 fails as stated. An order scored \<^verbatim>\<open>PROCESSED\<close> by one worker is set to \<^verbatim>\<open>INVALID\<close>
  by the next one, when the identifier was sent twice and the accrual service answers
  differently the second time. An order that is \<^verbatim>\<open>PROCESSING\<close> is back to \<^verbatim>\<open>NEW\<close> when
  that is the status the accrual service reports.
\<close>

theorem terminal_status_overwritten:
  "map status (orders (fst (run exact (take 2 three_steps) (shop ''NEW'', [])))) = [''PROCESSED''] \<and>
   map status (orders (fst (run exact three_steps (shop ''NEW'', [])))) = [''INVALID''] \<and>
   map status (orders (fst (run exact (take 1 back_to_new) (shop ''NEW'', [])))) = [''PROCESSING''] \<and>
   map status (orders (fst (run exact back_to_new (shop ''NEW'', [])))) = [''NEW'']"
  by (simp add: three_steps_def back_to_new_def run_def tick_def fetchAndQueueOrders_ok
      fetchAndQueueStaleOrders_ok resolve_def calm_def retry_loop.simps exact_answer example_defs
      claim_update_def claim_row_def is_stale_def staleThreshold_def Minute_def Second_def
      SetOrderStatusInvalid_def set_invalid_def)

end
